theory Spec2Isabelle
  imports Complex_Main "HOL-Library.Log_Nat"
begin

section \<open>The URL shortener of \<open>src/index.js\<close>\<close>

text \<open>
  The service has two handlers, \<open>POST /api/shorturl\<close> (create) and
  \<open>GET /api/shorturl/:short_url\<close> (resolve), over two MongoDB collections: the
  mappings (\<open>Url\<close>) and the counters (\<open>Counter\<close>).  The handlers are embedded as
  functions from the store before the request to the store after it, the list of
  outside calls the handler made, and the call it made on \<open>res\<close>.

  Strings are \<open>string\<close>: a character stands for a UTF-16 code unit below 256.
\<close>

subsection \<open>JavaScript values the handlers compute with\<close>

text \<open>
  A JavaScript number, as far as the handlers look at it: not-a-number, the two
  infinities, or a finite binary64 value, kept as the rational it denotes.  The two
  zeros are one value here: \<open>Number.isFinite\<close> and the equality match of a MongoDB query
  do not tell them apart.
\<close>

datatype js_number = NaN | PosInfinity | NegInfinity | Num rat

text \<open>\<open>Number.isFinite(v)\<close> for a value that is a number.\<close>

fun Number_isFinite :: "js_number \<Rightarrow> bool" where
  "Number_isFinite (Num v) = True"
| "Number_isFinite NaN = False"
| "Number_isFinite PosInfinity = False"
| "Number_isFinite NegInfinity = False"

text \<open>Unary minus on numbers, for a literal with a leading \<open>-\<close>.\<close>

fun js_negate :: "js_number \<Rightarrow> js_number" where
  "js_negate (Num v) = Num (- v)"
| "js_negate NaN = NaN"
| "js_negate PosInfinity = NegInfinity"
| "js_negate NegInfinity = PosInfinity"

subsubsection \<open>Rounding a mathematical value to binary64\<close>

text \<open>The integer nearest to a rational, ties to the even one.\<close>

definition round_half_even :: "rat \<Rightarrow> int" where
  "round_half_even x =
     (let f = \<lfloor>x\<rfloor>; d = x - of_int f
      in if d < 1 / 2 then f
         else if 1 / 2 < d then f + 1
         else if even f then f else f + 1)"

text \<open>Two to an integer power, as a rational.\<close>

definition pow2 :: "int \<Rightarrow> rat" where
  "pow2 e = (if 0 \<le> e then 2 ^ nat e else 1 / 2 ^ nat (- e))"

definition pow10 :: "int \<Rightarrow> rat" where
  "pow10 e = (if 0 \<le> e then 10 ^ nat e else 1 / 10 ^ nat (- e))"

text \<open>
  The binary exponent of a positive rational \<open>a\<close>: the \<open>e\<close> with
  \<open>2 ^ e \<le> a < 2 ^ (e + 1)\<close>.
\<close>

definition binary_exponent :: "rat \<Rightarrow> int" where
  "binary_exponent a =
     (if 1 \<le> a then bitlen \<lfloor>a\<rfloor> - 1 else - bitlen (\<lceil>1 / a\<rceil> - 1))"

text \<open>
  Round to nearest, ties to even, with 53 significant bits, gradual underflow below
  \<open>2 ^ -1022\<close> and overflow to infinity from \<open>2 ^ 1024\<close> on: the Number value of a
  mathematical value.
\<close>

definition round_binary64 :: "rat \<Rightarrow> js_number" where
  "round_binary64 a =
     (if a = 0 then Num 0
      else let e = max (binary_exponent a) (- 1022);
               q = pow2 (e - 52);
               r = of_int (round_half_even (a / q)) * q
           in if 2 ^ 1024 \<le> r then PosInfinity else Num r)"

definition to_binary64 :: "rat \<Rightarrow> js_number" where
  "to_binary64 v = (if v < 0 then js_negate (round_binary64 (- v)) else round_binary64 v)"

subsubsection \<open>\<open>Number(string)\<close>\<close>

text \<open>
  White space and line terminators that \<open>Number\<close> strips from both ends of a string:
  TAB, LF, VT, FF, CR, space and the no-break space.
\<close>

definition isStrWhiteSpaceChar :: "char \<Rightarrow> bool" where
  "isStrWhiteSpaceChar c = (of_char c \<in> {9, 10, 11, 12, 13, 32, 160 :: int})"

definition trimString :: "string \<Rightarrow> string" where
  "trimString s = rev (dropWhile isStrWhiteSpaceChar (rev (dropWhile isStrWhiteSpaceChar s)))"

text \<open>The value of a digit in a base up to 16, if the character is one.\<close>

definition digitValue :: "char \<Rightarrow> int option" where
  "digitValue c =
     (let n = of_char c :: int
      in if 48 \<le> n \<and> n \<le> 57 then Some (n - 48)
         else if 97 \<le> n \<and> n \<le> 102 then Some (n - 87)
         else if 65 \<le> n \<and> n \<le> 70 then Some (n - 55)
         else None)"

definition isDigitOf :: "int \<Rightarrow> char \<Rightarrow> bool" where
  "isDigitOf base c = (case digitValue c of None \<Rightarrow> False | Some d \<Rightarrow> d < base)"

text \<open>The number a string of digits denotes in a base, most significant digit first.\<close>

definition digitsValue :: "int \<Rightarrow> string \<Rightarrow> int" where
  "digitsValue base ds =
     foldl (\<lambda>acc c. acc * base + (case digitValue c of None \<Rightarrow> 0 | Some d \<Rightarrow> d)) 0 ds"

text \<open>\<open>SignedInteger\<close>: digits with an optional sign, the exponent of a decimal literal.\<close>

definition parseSignedInteger :: "string \<Rightarrow> int option" where
  "parseSignedInteger s =
     (let (neg, ds) = (case s of
                         c # t \<Rightarrow> if c = CHR ''-'' then (True, t)
                                  else if c = CHR ''+'' then (False, t)
                                  else (False, s)
                       | [] \<Rightarrow> (False, s))
      in if ds = [] \<or> \<not> list_all (isDigitOf 10) ds then None
         else Some (if neg then - digitsValue 10 ds else digitsValue 10 ds))"

text \<open>
  \<open>StrUnsignedDecimalLiteral\<close>: \<open>Infinity\<close>, or digits with an optional fraction and an
  optional exponent, with a digit before or after the point.  Anything else is \<open>NaN\<close>.
\<close>

definition parseUnsignedDecimal :: "string \<Rightarrow> js_number" where
  "parseUnsignedDecimal s =
     (if s = ''Infinity'' then PosInfinity
      else let ip = takeWhile (isDigitOf 10) s;
               r1 = dropWhile (isDigitOf 10) s;
               (fp, r2) = (case r1 of
                             c # t \<Rightarrow> if c = CHR ''.''
                                      then (takeWhile (isDigitOf 10) t, dropWhile (isDigitOf 10) t)
                                      else ([], r1)
                           | [] \<Rightarrow> ([], r1))
           in if ip = [] \<and> fp = [] then NaN
              else (case r2 of
                      [] \<Rightarrow> to_binary64 (of_int (digitsValue 10 (ip @ fp)) * pow10 (- int (length fp)))
                    | c # t \<Rightarrow>
                        if c = CHR ''e'' \<or> c = CHR ''E''
                        then (case parseSignedInteger t of
                                None \<Rightarrow> NaN
                              | Some x \<Rightarrow>
                                  to_binary64 (of_int (digitsValue 10 (ip @ fp))
                                               * pow10 (x - int (length fp))))
                        else NaN))"

text \<open>
  \<open>NonDecimalIntegerLiteral\<close>: \<open>0x\<close>, \<open>0o\<close> or \<open>0b\<close> (either case) and at least one digit
  of that base; no sign.
\<close>

definition nonDecimalBase :: "char \<Rightarrow> int option" where
  "nonDecimalBase c =
     (if c = CHR ''x'' \<or> c = CHR ''X'' then Some 16
      else if c = CHR ''o'' \<or> c = CHR ''O'' then Some 8
      else if c = CHR ''b'' \<or> c = CHR ''B'' then Some 2
      else None)"

definition parseNonDecimal :: "string \<Rightarrow> js_number option" where
  "parseNonDecimal s =
     (case s of
        z # c # ds \<Rightarrow>
          (if z = CHR ''0'' then
             (case nonDecimalBase c of
                None \<Rightarrow> None
              | Some base \<Rightarrow>
                  Some (if ds \<noteq> [] \<and> list_all (isDigitOf base) ds
                        then to_binary64 (of_int (digitsValue base ds)) else NaN))
           else None)
      | _ \<Rightarrow> None)"

text \<open>
  \<open>Number(s)\<close> for a string \<open>s\<close>: the empty or all-blank string is 0, a string that is
  not a numeric literal is \<open>NaN\<close>.
\<close>

definition Number :: "string \<Rightarrow> js_number" where
  "Number s =
     (let t = trimString s
      in case t of
           [] \<Rightarrow> Num 0
         | c # u \<Rightarrow>
             if c = CHR ''-'' then js_negate (parseUnsignedDecimal u)
             else if c = CHR ''+'' then parseUnsignedDecimal u
             else (case parseNonDecimal t of
                     Some v \<Rightarrow> v
                   | None \<Rightarrow> parseUnsignedDecimal t))"

subsection \<open>The store, the outside world and the response\<close>

text \<open>
  A document of the \<open>Url\<close> collection.  \<open>short_url\<close> is a Number in the schema; the only
  writer is the create handler, which stores counter values, and those are integers:
  the field holds the integer the Number denotes.
\<close>

record url_doc =
  original_url :: string
  short_url :: int

text \<open>
  The two collections: the mappings in insertion order, and the counters by \<open>_id\<close> with
  their \<open>seq\<close>, a Number that holds an integer.
\<close>

record db =
  urls :: "url_doc list"
  counters :: "string \<rightharpoonup> int"

text \<open>What the code reads of a parsed \<open>URL\<close> object.\<close>

record parsed_url =
  protocol :: string
  hostname :: string

text \<open>The calls a handler makes outside the process, in the order it makes them.\<close>

datatype outside_call =
    DnsLookup string
  | UrlFindOneByOriginal string
  | CounterFindOneAndUpdate string
  | UrlSave url_doc
  | UrlFindOneByShort js_number

text \<open>
  What a request meets outside the source file: the platform's URL parser
  (\<open>new URL(input)\<close>, \<open>None\<close> where it throws), and which outside calls fail for a
  reason of their own: \<open>dns.lookup\<close> calling back with an error, a MongoDB call
  rejecting because the store cannot be reached.
\<close>

record env =
  parseURL :: "string \<Rightarrow> parsed_url option"
  fails :: "outside_call \<Rightarrow> bool"

text \<open>Why an awaited store call rejects.\<close>

datatype store_error = Unavailable | DuplicateKey

text \<open>A value in a JSON payload, and the call a handler makes on \<open>res\<close>.\<close>

datatype json_value = JString string | JNumber int

datatype response =
    Json nat "(string \<times> json_value) list"  \<comment> \<open>\<open>res.status(code).json(payload)\<close>; \<open>res.json\<close> is status 200\<close>
  | Redirect nat string                      \<comment> \<open>\<open>res.redirect(url)\<close>: status 302\<close>

record outcome =
  store_after :: db
  calls :: "outside_call list"
  reply :: response

subsection \<open>The store operations the handlers use\<close>

text \<open>\<open>Url.findOne({ original_url })\<close>: the first document with exactly that string.\<close>

definition findOneByOriginal :: "db \<Rightarrow> string \<Rightarrow> url_doc option" where
  "findOneByOriginal D u = find (\<lambda>d. original_url d = u) (urls D)"

text \<open>\<open>Url.findOne({ short_url: short })\<close>: the first document whose id equals the number.\<close>

definition findOneByShort :: "db \<Rightarrow> js_number \<Rightarrow> url_doc option" where
  "findOneByShort D short = find (\<lambda>d. Num (of_int (short_url d)) = short) (urls D)"

text \<open>
  \<open>newUrl.save()\<close>: the insert is refused when the store cannot be reached and when a
  document has that \<open>short_url\<close> already (the field is \<open>unique\<close>); a refused insert
  leaves the collection as it was.
\<close>

definition save :: "env \<Rightarrow> db \<Rightarrow> url_doc \<Rightarrow> store_error + db" where
  "save E D d =
     (if fails E (UrlSave d) then Inl Unavailable
      else if short_url d \<in> set (map short_url (urls D)) then Inl DuplicateKey
      else Inr (D\<lparr>urls := urls D @ [d]\<rparr>))"

text \<open>
  \<open>seq + 1\<close> on a Number: the sum is rounded to binary64.  Below \<open>2 ^ 53\<close> it is the
  integer sum; at \<open>2 ^ 53\<close> the sum rounds back to \<open>2 ^ 53\<close>.  The sum of a finite
  binary64 value and 1 is finite; for an integer that no Number holds, and whose sum
  rounds to infinity, the value is left as it is.
\<close>

definition inc_seq :: "int \<Rightarrow> int" where
  "inc_seq v = (case to_binary64 (of_int v + 1) of Num r \<Rightarrow> \<lfloor>r\<rfloor> | _ \<Rightarrow> v)"

text \<open>
  \<open>getNextSequence(name)\<close>: \<open>findOneAndUpdate\<close> with \<open>$inc: { seq: 1 }\<close>, \<open>upsert\<close> and
  \<open>new\<close>: the counter is incremented, starting from 0 when there is none, and the
  updated \<open>seq\<close> is returned.
\<close>

definition getNextSequence :: "env \<Rightarrow> db \<Rightarrow> string \<Rightarrow> store_error + (db \<times> int)" where
  "getNextSequence E D name =
     (if fails E (CounterFindOneAndUpdate name) then Inl Unavailable
      else let seq = inc_seq (case counters D name of None \<Rightarrow> 0 | Some v \<Rightarrow> v)
           in Inr (D\<lparr>counters := (counters D)(name \<mapsto> seq)\<rparr>, seq))"

subsection \<open>The helpers\<close>

definition isValidHttpUrl :: "env \<Rightarrow> string \<Rightarrow> bool" where
  "isValidHttpUrl E input =
     (case parseURL E input of
        None \<Rightarrow> False
      | Some parsed \<Rightarrow> protocol parsed = ''http:'' \<or> protocol parsed = ''https:'')"

definition getHostname :: "env \<Rightarrow> string \<Rightarrow> string option" where
  "getHostname E input =
     (case parseURL E input of None \<Rightarrow> None | Some parsed \<Rightarrow> Some (hostname parsed))"

subsection \<open>\<open>POST /api/shorturl\<close>\<close>

text \<open>
  The request body as the body parsers leave it: an object from field names to
  values, \<open>None\<close> for a field that is not there (\<open>undefined\<close>).  The values are
  strings, as a form or a JSON object of strings gives them.
\<close>

type_synonym body = "string \<rightharpoonup> string"

text \<open>Truthiness of such a value: \<open>undefined\<close> and the empty string are falsy.\<close>

fun truthy :: "string option \<Rightarrow> bool" where
  "truthy None = False"
| "truthy (Some s) = (s \<noteq> [])"

text \<open>\<open>a || b\<close>: \<open>a\<close> when it is truthy, else \<open>b\<close>.\<close>

definition js_or :: "string option \<Rightarrow> string option \<Rightarrow> string option" where
  "js_or a b = (if truthy a then a else b)"

text \<open>\<open>req.body.url || req.body.original_url || req.body.input\<close>\<close>

definition candidate :: "body \<Rightarrow> string option" where
  "candidate b = js_or (js_or (b ''url'') (b ''original_url'')) (b ''input'')"

definition invalid_url :: response where
  "invalid_url = Json 200 [(''error'', JString ''invalid url'')]"

definition server_error :: response where
  "server_error = Json 500 [(''error'', JString ''server error'')]"

definition not_found :: response where
  "not_found = Json 404 [(''error'', JString ''No short URL found for given input'')]"

definition mapping_json :: "url_doc \<Rightarrow> response" where
  "mapping_json d =
     Json 200 [(''original_url'', JString (original_url d)), (''short_url'', JNumber (short_url d))]"

text \<open>
  The callback of \<open>dns.lookup\<close> when the lookup gave no error: the \<open>try\<close> block and its
  \<open>catch\<close>.  \<open>cs\<close> are the outside calls made before.
\<close>

definition create_stored :: "env \<Rightarrow> db \<Rightarrow> outside_call list \<Rightarrow> string \<Rightarrow> outcome" where
  "create_stored E D cs u =
     (if fails E (UrlFindOneByOriginal u)
      then \<lparr>store_after = D, calls = cs @ [UrlFindOneByOriginal u], reply = server_error\<rparr>
      else case findOneByOriginal D u of
        Some existing \<Rightarrow>
          \<lparr>store_after = D, calls = cs @ [UrlFindOneByOriginal u], reply = mapping_json existing\<rparr>
      | None \<Rightarrow>
          (case getNextSequence E D ''url_count'' of
             Inl err \<Rightarrow>
               \<lparr>store_after = D,
                calls = cs @ [UrlFindOneByOriginal u, CounterFindOneAndUpdate ''url_count''],
                reply = server_error\<rparr>
           | Inr (D1, nextSeq) \<Rightarrow>
               (let newUrl = \<lparr>original_url = u, short_url = nextSeq\<rparr>;
                    cs2 = cs @ [UrlFindOneByOriginal u, CounterFindOneAndUpdate ''url_count'',
                                UrlSave newUrl]
                in case save E D1 newUrl of
                     Inl err \<Rightarrow> \<lparr>store_after = D1, calls = cs2, reply = server_error\<rparr>
                   | Inr D2 \<Rightarrow> \<lparr>store_after = D2, calls = cs2, reply = mapping_json newUrl\<rparr>)))"

text \<open>The handler.\<close>

definition create :: "env \<Rightarrow> db \<Rightarrow> body \<Rightarrow> outcome" where
  "create E D b =
     (case candidate b of
        None \<Rightarrow> \<lparr>store_after = D, calls = [], reply = invalid_url\<rparr>
      | Some u \<Rightarrow>
          if u = [] \<or> \<not> isValidHttpUrl E u
          then \<lparr>store_after = D, calls = [], reply = invalid_url\<rparr>
          else (case getHostname E u of
                  None \<Rightarrow> \<lparr>store_after = D, calls = [], reply = invalid_url\<rparr>
                | Some h \<Rightarrow>
                    if h = [] then \<lparr>store_after = D, calls = [], reply = invalid_url\<rparr>
                    else if fails E (DnsLookup h)
                    then \<lparr>store_after = D, calls = [DnsLookup h], reply = invalid_url\<rparr>
                    else create_stored E D [DnsLookup h] u))"

subsection \<open>\<open>GET /api/shorturl/:short_url\<close>\<close>

definition resolve :: "env \<Rightarrow> db \<Rightarrow> string \<Rightarrow> outcome" where
  "resolve E D param =
     (let short = Number param
      in if \<not> Number_isFinite short
         then \<lparr>store_after = D, calls = [], reply = invalid_url\<rparr>
         else if fails E (UrlFindOneByShort short)
         then \<lparr>store_after = D, calls = [UrlFindOneByShort short], reply = server_error\<rparr>
         else (case findOneByShort D short of
                 None \<Rightarrow>
                   \<lparr>store_after = D, calls = [UrlFindOneByShort short], reply = not_found\<rparr>
               | Some entry \<Rightarrow>
                   \<lparr>store_after = D, calls = [UrlFindOneByShort short],
                    reply = Redirect 302 (original_url entry)\<rparr>))"

subsection \<open>Requests one after another\<close>

text \<open>
  Sequential operation: each request is handled to its response before the next one
  starts, on the store the one before left.
\<close>

datatype request = Create env body | Resolve env string

fun handle :: "db \<Rightarrow> request \<Rightarrow> outcome" where
  "handle D (Create E b) = create E D b"
| "handle D (Resolve E param) = resolve E D param"

fun replies :: "db \<Rightarrow> request list \<Rightarrow> response list" where
  "replies D [] = []"
| "replies D (r # rs) = reply (handle D r) # replies (store_after (handle D r)) rs"

fun final_store :: "db \<Rightarrow> request list \<Rightarrow> db" where
  "final_store D [] = D"
| "final_store D (r # rs) = final_store (store_after (handle D r)) rs"

subsection \<open>Notions the properties are stated with\<close>

text \<open>The store before anything was written: no mapping, no counter.\<close>

definition fresh :: db where
  "fresh = \<lparr>urls = [], counters = Map.empty\<rparr>"

text \<open>The value of the counter the handler uses, 0 while the counter is not there.\<close>

definition counter_value :: "db \<Rightarrow> int" where
  "counter_value D = (case counters D ''url_count'' of None \<Rightarrow> 0 | Some v \<Rightarrow> v)"

definition ids :: "db \<Rightarrow> int set" where
  "ids D = set (map short_url (urls D))"

text \<open>
  A valid absolute http/https URL with a resolvable hostname: the parser accepts it,
  the scheme is http or https, there is a hostname and \<open>dns.lookup\<close> resolves it.
\<close>

definition valid_url :: "env \<Rightarrow> string \<Rightarrow> bool" where
  "valid_url E u =
     (u \<noteq> [] \<and> isValidHttpUrl E u \<and>
      (case getHostname E u of None \<Rightarrow> False | Some h \<Rightarrow> h \<noteq> [] \<and> \<not> fails E (DnsLookup h)))"

text \<open>No store call of the request fails for want of the store.\<close>

definition store_up :: "env \<Rightarrow> bool" where
  "store_up E = (\<forall>c. (case c of DnsLookup h \<Rightarrow> True | _ \<Rightarrow> \<not> fails E c))"

text \<open>The unique index on \<open>short_url\<close>: no two documents share an id.\<close>

definition unique_ids :: "db \<Rightarrow> bool" where
  "unique_ids D = distinct (map short_url (urls D))"

text \<open>Every id in the store was handed out by the counter: it lies between 1 and its value.\<close>

definition ids_allocated :: "db \<Rightarrow> bool" where
  "ids_allocated D = (\<forall>d \<in> set (urls D). 1 \<le> short_url d \<and> short_url d \<le> counter_value D)"

text \<open>
  What holds of every store the service has written, starting from the fresh one: the
  ids are unique, each was handed out by the counter, and the counter lies between 0
  and \<open>2 ^ 53\<close>.
\<close>

definition store_inv :: "db \<Rightarrow> bool" where
  "store_inv D =
     (unique_ids D \<and> ids_allocated D \<and> 0 \<le> counter_value D \<and> counter_value D \<le> 2 ^ 53)"

text \<open>The decimal numeral of an integer, as a client writes an id into the path.\<close>

function decimalDigits :: "int \<Rightarrow> string" where
  "decimalDigits n =
     (if n < 10 then [char_of (48 + n)]
      else decimalDigits (n div 10) @ [char_of (48 + n mod 10)])"
  by pat_completeness auto
termination
  by (relation "measure nat") auto

definition decimal :: "int \<Rightarrow> string" where
  "decimal n = (if n < 0 then CHR ''-'' # decimalDigits (- n) else decimalDigits n)"

text \<open>
  The claim that the first field present wins whatever its value, as the
  specification words it.
\<close>

definition first_present :: "body \<Rightarrow> string option" where
  "first_present b =
     (case b ''url'' of
        Some v \<Rightarrow> Some v
      | None \<Rightarrow> (case b ''original_url'' of Some v \<Rightarrow> Some v | None \<Rightarrow> b ''input''))"

text \<open>
  An outside world for the examples: the parser's answers on the strings the examples
  submit, one host name that does not resolve, and a store that is always reached.
\<close>

definition example_env :: env where
  "example_env =
     \<lparr>parseURL = map_of
        [(''http://example.com'', \<lparr>protocol = ''http:'', hostname = ''example.com''\<rparr>),
         (''https://example.org/a'', \<lparr>protocol = ''https:'', hostname = ''example.org''\<rparr>),
         (''ftp://example.com'', \<lparr>protocol = ''ftp:'', hostname = ''example.com''\<rparr>),
         (''http://no-such-host.invalid'',
            \<lparr>protocol = ''http:'', hostname = ''no-such-host.invalid''\<rparr>)],
      fails = (\<lambda>c. c = DnsLookup ''no-such-host.invalid'')\<rparr>"

section \<open>Facts about \<open>Number\<close>\<close>

subsection \<open>Integers up to \<open>2 ^ 53\<close> are binary64 values\<close>

lemma round_half_even_of_int: "round_half_even (of_int k) = k"
  by (simp add: round_half_even_def)

lemma round_binary64_int:
  assumes "0 < n" and "n \<le> 2 ^ 53"
  shows "round_binary64 (of_int n) = Num (of_int n)"
proof -
  define e where "e = bitlen n - 1"
  from bitlen_bounds [OF assms(1)] have lo: "2 ^ nat e \<le> n" and hi: "n < 2 ^ nat (e + 1)"
    by (simp_all add: e_def)
  from assms(1) have e0: "0 \<le> e"
    using bitlen_eq_zero_iff [of n] bitlen_nonneg [of n] by (simp add: e_def)
  have be: "binary_exponent (of_int n) = e"
    using assms(1) by (simp add: binary_exponent_def e_def)
  from lo assms(2) have "(2::int) ^ nat e \<le> 2 ^ 53" by simp
  then have "nat e \<le> 53" by (rule power_le_imp_le_exp [rotated]) simp
  with e0 have e53: "e \<le> 53" by simp
  have small: "\<not> (2::rat) ^ 1024 \<le> of_int n"
  proof -
    have "(of_int n :: rat) \<le> of_int (2 ^ 53)" using assms(2) by (simp only: of_int_le_iff)
    then show ?thesis by simp
  qed
  have exact: "of_int (round_half_even (of_int n / pow2 (e - 52))) * pow2 (e - 52) = (of_int n :: rat)"
  proof (cases "e \<le> 52")
    case True
    define k where "k = nat (52 - e)"
    have q: "pow2 (e - 52) = 1 / 2 ^ k"
      using True by (auto simp: pow2_def k_def)
    have "(of_int n :: rat) / pow2 (e - 52) = of_int (n * 2 ^ k)"
      by (simp add: q)
    then have "round_half_even (of_int n / pow2 (e - 52)) = n * 2 ^ k"
      by (simp only: round_half_even_of_int)
    then show ?thesis
      by (simp add: q)
  next
    case False
    with e53 have e: "e = 53" by simp
    with lo assms(2) have n: "n = 2 ^ 53" by simp
    have q: "pow2 (e - 52) = 2"
      by (simp add: e pow2_def)
    have "(of_int n :: rat) / 2 = of_int (2 ^ 52)"
      by (simp add: n)
    then have "round_half_even (of_int n / 2) = 2 ^ 52"
      by (simp only: round_half_even_of_int)
    then show ?thesis
      by (simp add: q n)
  qed
  from assms(1) have "(of_int n :: rat) \<noteq> 0" by simp
  then show ?thesis
    using e0 small exact by (simp add: round_binary64_def be Let_def)
qed

lemma to_binary64_int:
  assumes "0 \<le> n" and "n \<le> 2 ^ 53"
  shows "to_binary64 (of_int n) = Num (of_int n)"
proof (cases "n = 0")
  case True
  then show ?thesis by (simp add: to_binary64_def round_binary64_def)
next
  case False
  with assms show ?thesis by (simp add: to_binary64_def round_binary64_int)
qed

subsection \<open>Adding 1 to the counter\<close>

lemma inc_seq_small:
  assumes "0 \<le> v" and "v < 2 ^ 53"
  shows "inc_seq v = v + 1"
proof -
  have "to_binary64 (of_int (v + 1)) = Num (of_int (v + 1))"
    by (rule to_binary64_int) (use assms in simp_all)
  then show ?thesis
    by (simp add: inc_seq_def)
qed

lemma bitlen_above_2_53: "bitlen 9007199254740993 = 54"
  using bitlen_twopow_add_eq [of 1 53] by simp

lemma inc_seq_max: "inc_seq (2 ^ 53) = 2 ^ 53"
proof -
  have be: "binary_exponent 9007199254740993 = 53"
    by (simp add: binary_exponent_def bitlen_above_2_53)
  have fl: "\<lfloor>9007199254740993 / 2 :: rat\<rfloor> = 4503599627370496"
    by (rule floor_unique) simp_all
  have rhe: "round_half_even (9007199254740993 / 2) = 4503599627370496"
    by (simp add: round_half_even_def fl Let_def)
  have "to_binary64 9007199254740993 = Num 9007199254740992"
    by (simp add: to_binary64_def round_binary64_def be pow2_def rhe Let_def)
  then show ?thesis
    by (simp add: inc_seq_def)
qed

lemma inc_seq_cases:
  assumes "0 \<le> v" and "v \<le> 2 ^ 53"
  shows "inc_seq v = (if v < 2 ^ 53 then v + 1 else 2 ^ 53)"
proof (cases "v < 2 ^ 53")
  case True
  with assms(1) show ?thesis by (simp only: inc_seq_small if_True)
next
  case False
  with assms(2) have "v = 2 ^ 53" by simp
  with False show ?thesis by (simp only: inc_seq_max if_False)
qed

lemma inc_seq_bounds:
  assumes "0 \<le> v" and "v \<le> 2 ^ 53"
  shows "v \<le> inc_seq v" and "inc_seq v \<le> 2 ^ 53" and "1 \<le> inc_seq v"
    and "n < 2 ^ 53 \<Longrightarrow> n \<le> v \<Longrightarrow> n < inc_seq v"
  using assms by (simp_all add: inc_seq_cases)

subsection \<open>The decimal numeral of an id converts back to the id\<close>

lemma isDigitOf_10_iff: "isDigitOf 10 c \<longleftrightarrow> 48 \<le> (of_char c :: int) \<and> (of_char c :: int) \<le> 57"
  by (auto simp: isDigitOf_def digitValue_def Let_def)

lemma digitValue_decimal: "isDigitOf 10 c \<Longrightarrow> digitValue c = Some (of_char c - 48)"
  by (auto simp: isDigitOf_def digitValue_def Let_def split: if_splits)

lemma of_char_digit: "0 \<le> d \<Longrightarrow> d < 10 \<Longrightarrow> (of_char (char_of (48 + d :: int)) :: int) = 48 + d"
  by simp

lemma isDigitOf_char_of: "0 \<le> d \<Longrightarrow> d < 10 \<Longrightarrow> isDigitOf 10 (char_of (48 + d :: int))"
  by (simp add: isDigitOf_10_iff)

lemma digits_not_blank: "isDigitOf 10 c \<Longrightarrow> \<not> isStrWhiteSpaceChar c"
  by (auto simp: isDigitOf_10_iff isStrWhiteSpaceChar_def)

lemma of_char_literals:
  "(of_char CHR ''-'' :: int) = 45" "(of_char CHR ''+'' :: int) = 43" "(of_char CHR ''I'' :: int) = 73"
  "(of_char CHR ''x'' :: int) = 120" "(of_char CHR ''X'' :: int) = 88"
  "(of_char CHR ''o'' :: int) = 111" "(of_char CHR ''O'' :: int) = 79"
  "(of_char CHR ''b'' :: int) = 98" "(of_char CHR ''B'' :: int) = 66"
  by simp_all

lemma digit_not:
  assumes "isDigitOf 10 c" and "(of_char d :: int) < 48 \<or> 57 < (of_char d :: int)"
  shows "c \<noteq> d"
  using assms by (auto simp: isDigitOf_10_iff)

lemma digits_not_sign: "isDigitOf 10 c \<Longrightarrow> c \<noteq> CHR ''-'' \<and> c \<noteq> CHR ''+'' \<and> c \<noteq> CHR ''I'' \<and> nonDecimalBase c = None"
  by (simp add: nonDecimalBase_def digit_not of_char_literals)

declare decimalDigits.simps [simp del]

lemma trimString_digits:
  assumes "list_all (isDigitOf 10) ds"
  shows "trimString ds = ds"
proof -
  have *: "dropWhile isStrWhiteSpaceChar xs = xs" if "list_all (isDigitOf 10) xs" for xs
    using that by (cases xs) (simp_all add: digits_not_blank)
  from assms have "list_all (isDigitOf 10) (rev ds)" by (simp add: list_all_iff)
  with assms show ?thesis by (simp add: trimString_def *)
qed

lemma Number_digits:
  assumes "ds \<noteq> []" and "list_all (isDigitOf 10) ds"
  shows "Number ds = to_binary64 (of_int (digitsValue 10 ds))"
proof -
  from assms obtain c cs where ds: "ds = c # cs" and c: "isDigitOf 10 c" and cs: "list_all (isDigitOf 10) cs"
    by (cases ds) auto
  have nd: "parseNonDecimal ds = None"
    using cs by (cases cs) (simp_all add: parseNonDecimal_def ds digits_not_sign)
  have tw: "takeWhile (isDigitOf 10) ds = ds" "dropWhile (isDigitOf 10) ds = []"
    using assms(2) by (simp_all add: list_all_iff)
  have inf: "ds \<noteq> ''Infinity''"
    using c digits_not_sign [OF c] by (auto simp: ds)
  have "parseUnsignedDecimal ds = to_binary64 (of_int (digitsValue 10 ds))"
    using assms(1) inf by (simp add: parseUnsignedDecimal_def tw pow10_def)
  then show ?thesis
    using digits_not_sign [OF c] nd
    by (simp add: Number_def trimString_digits [OF assms(2)] ds [symmetric] Let_def)
       (simp add: ds)
qed

lemma digitsValue_snoc:
  "digitsValue base (ds @ [c]) = digitsValue base ds * base + (case digitValue c of None \<Rightarrow> 0 | Some d \<Rightarrow> d)"
  by (simp add: digitsValue_def)

lemma decimalDigits_digits:
  "0 \<le> n \<Longrightarrow> decimalDigits n \<noteq> [] \<and> list_all (isDigitOf 10) (decimalDigits n) \<and> digitsValue 10 (decimalDigits n) = n"
proof (induction n rule: decimalDigits.induct)
  case (1 n)
  show ?case
  proof (cases "n < 10")
    case True
    with "1.prems" show ?thesis
      by (simp add: decimalDigits.simps [of n] isDigitOf_char_of digitsValue_def
            digitValue_decimal)
  next
    case False
    with "1.prems" have "0 \<le> n div 10" by simp
    with "1.IH" False have ih: "list_all (isDigitOf 10) (decimalDigits (n div 10))"
      "digitsValue 10 (decimalDigits (n div 10)) = n div 10" by simp_all
    have d: "isDigitOf 10 (char_of (48 + n mod 10))"
      by (rule isDigitOf_char_of) simp_all
    have "digitValue (char_of (48 + n mod 10)) = Some (n mod 10)"
      using digitValue_decimal [OF d] by simp
    with False ih d show ?thesis
      by (simp add: decimalDigits.simps [of n] digitsValue_snoc)
  qed
qed

lemma Number_decimal:
  assumes "0 \<le> n" and "n \<le> 2 ^ 53"
  shows "Number (decimal n) = Num (of_int n)"
proof -
  from decimalDigits_digits [OF assms(1)]
  have ne: "decimalDigits n \<noteq> []" and ds: "list_all (isDigitOf 10) (decimalDigits n)"
    and v: "digitsValue 10 (decimalDigits n) = n"
    by blast+
  from assms(1) have "decimal n = decimalDigits n"
    by (simp add: decimal_def)
  then have "Number (decimal n) = to_binary64 (of_int (digitsValue 10 (decimalDigits n)))"
    by (simp only: Number_digits [OF ne ds])
  also have "\<dots> = to_binary64 (of_int n)"
    by (simp only: v)
  also have "\<dots> = Num (of_int n)"
    by (rule to_binary64_int [OF assms])
  finally show ?thesis .
qed

subsection \<open>\<open>Number\<close> on the strings of the examples\<close>

lemma bitlen_3: "bitlen 3 = 2"
  using bitlen_twopow_add_eq [of 1 1] by simp

lemma to_binary64_seven_halves: "to_binary64 (7 / 2) = Num (7 / 2)"
proof -
  have "\<lfloor>7 / 2 :: rat\<rfloor> = 3"
    by (rule floor_unique) simp_all
  then have be: "binary_exponent (7 / 2) = 1"
    by (simp add: binary_exponent_def bitlen_3)
  have q: "pow2 (- 51) = 1 / 2251799813685248"
    by (simp add: pow2_def)
  have rhe: "round_half_even 7881299347898368 = 7881299347898368"
    using round_half_even_of_int [of 7881299347898368] by simp
  show ?thesis
    by (simp add: to_binary64_def round_binary64_def be Let_def q rhe)
qed

lemma Number_3_5: "Number ''3.5'' = Num (7 / 2)"
proof -
  have "Number ''3.5'' = to_binary64 (7 / 2)"
    by (simp add: Number_def trimString_def isStrWhiteSpaceChar_def parseNonDecimal_def
          nonDecimalBase_def parseUnsignedDecimal_def isDigitOf_def digitValue_def
          digitsValue_def pow10_def Let_def)
  then show ?thesis
    by (simp only: to_binary64_seven_halves)
qed

lemma Number_1e3: "Number ''1e3'' = Num 1000"
proof -
  have "Number ''1e3'' = to_binary64 (of_int 1000)"
    by (simp add: Number_def trimString_def isStrWhiteSpaceChar_def parseNonDecimal_def
          nonDecimalBase_def parseUnsignedDecimal_def parseSignedInteger_def isDigitOf_def
          digitValue_def digitsValue_def pow10_def Let_def)
  also have "\<dots> = Num (of_int 1000)"
    by (rule to_binary64_int) simp_all
  finally show ?thesis by simp
qed

lemma Number_999999: "Number ''999999'' = Num 999999"
proof -
  have "Number ''999999'' = to_binary64 (of_int (digitsValue 10 ''999999''))"
    by (rule Number_digits) (simp_all add: isDigitOf_def digitValue_def)
  also have "digitsValue 10 ''999999'' = 999999"
    by (simp add: digitsValue_def digitValue_def)
  also have "to_binary64 (of_int 999999) = Num (of_int 999999)"
    by (rule to_binary64_int) simp_all
  finally show ?thesis by simp
qed

lemma Number_abc: "Number ''abc'' = NaN"
  by (simp add: Number_def trimString_def isStrWhiteSpaceChar_def parseNonDecimal_def
        nonDecimalBase_def parseUnsignedDecimal_def isDigitOf_def digitValue_def Let_def)

lemma Number_Infinity: "Number ''Infinity'' = PosInfinity"
  by (simp add: Number_def trimString_def isStrWhiteSpaceChar_def parseNonDecimal_def
        parseUnsignedDecimal_def Let_def)

section \<open>Facts about the handlers\<close>

subsection \<open>The store operations\<close>

lemma store_upD:
  assumes "store_up E"
  shows "\<not> fails E (UrlFindOneByOriginal u)" "\<not> fails E (CounterFindOneAndUpdate name)"
    "\<not> fails E (UrlSave d)" "\<not> fails E (UrlFindOneByShort v)"
  using assms [unfolded store_up_def, THEN spec, of "UrlFindOneByOriginal u"]
    assms [unfolded store_up_def, THEN spec, of "CounterFindOneAndUpdate name"]
    assms [unfolded store_up_def, THEN spec, of "UrlSave d"]
    assms [unfolded store_up_def, THEN spec, of "UrlFindOneByShort v"]
  by simp_all

lemma find_append:
  "find P (xs @ ys) = (case find P xs of None \<Rightarrow> find P ys | Some x \<Rightarrow> Some x)"
  by (induction xs) auto

lemma find_unique:
  "distinct (map f xs) \<Longrightarrow> d \<in> set xs \<Longrightarrow> find (\<lambda>x. f x = f d) xs = Some d"
  by (induction xs) auto

lemma findOneByOriginal_None: "findOneByOriginal D u = None \<longleftrightarrow> u \<notin> original_url ` set (urls D)"
  by (auto simp: findOneByOriginal_def find_None_iff)

lemma findOneByOriginal_Some:
  "findOneByOriginal D u = Some d \<Longrightarrow> d \<in> set (urls D) \<and> original_url d = u"
  by (auto simp: findOneByOriginal_def find_Some_iff)

lemma findOneByShort_int: "findOneByShort D (Num (of_int n)) = find (\<lambda>d. short_url d = n) (urls D)"
  by (simp add: findOneByShort_def)

lemma find_id_unique:
  assumes "unique_ids D" and "d \<in> set (urls D)"
  shows "findOneByShort D (Num (of_int (short_url d))) = Some d"
  using find_unique [of short_url "urls D" d] assms
  by (simp add: findOneByShort_int unique_ids_def)

lemma counter_value_update [simp]:
  "counter_value (D\<lparr>counters := (counters D)(''url_count'' \<mapsto> n)\<rparr>) = n"
  "counter_value (D\<lparr>counters := (counters D)(''url_count'' \<mapsto> n), urls := us\<rparr>) = n"
  by (simp_all add: counter_value_def)

lemma ids_update [simp]:
  "ids (D\<lparr>counters := c\<rparr>) = ids D"
  "ids (D\<lparr>counters := c, urls := urls D @ [d]\<rparr>) = insert (short_url d) (ids D)"
  by (simp_all add: ids_def)

lemma mapping_json_inject [simp]: "mapping_json d = mapping_json d' \<longleftrightarrow> d = d'"
  by (cases d, cases d') (auto simp: mapping_json_def)

lemma mapping_json_not_error [simp]:
  "invalid_url \<noteq> mapping_json d" "server_error \<noteq> mapping_json d"
  by (simp_all add: mapping_json_def invalid_url_def server_error_def)

subsection \<open>What create does\<close>

lemma create_invalid:
  assumes "candidate b = Some u" and "\<not> valid_url E u"
  shows "create E D b = \<lparr>store_after = D, calls = (case getHostname E u of Some h \<Rightarrow> if u \<noteq> [] \<and> isValidHttpUrl E u \<and> h \<noteq> [] then [DnsLookup h] else [] | None \<Rightarrow> []), reply = invalid_url\<rparr>"
  using assms by (auto simp: create_def valid_url_def split: option.splits)

lemma create_valid:
  assumes "candidate b = Some u" and "valid_url E u"
  shows "\<exists>h. create E D b = create_stored E D [DnsLookup h] u"
  using assms by (auto simp: create_def valid_url_def split: option.splits)

lemma create_stored_existing:
  assumes "\<not> fails E (UrlFindOneByOriginal u)" and "findOneByOriginal D u = Some d"
  shows "create_stored E D cs u =
           \<lparr>store_after = D, calls = cs @ [UrlFindOneByOriginal u], reply = mapping_json d\<rparr>"
  using assms by (simp add: create_stored_def)

lemma create_stored_new:
  assumes "\<not> fails E (UrlFindOneByOriginal u)" and "findOneByOriginal D u = None"
    and "\<not> fails E (CounterFindOneAndUpdate ''url_count'')"
  shows "create_stored E D cs u =
           (let n = inc_seq (counter_value D);
                newUrl = \<lparr>original_url = u, short_url = n\<rparr>;
                D1 = D\<lparr>counters := (counters D)(''url_count'' \<mapsto> n)\<rparr>;
                cs2 = cs @ [UrlFindOneByOriginal u, CounterFindOneAndUpdate ''url_count'', UrlSave newUrl]
            in if fails E (UrlSave newUrl) \<or> n \<in> ids D
               then \<lparr>store_after = D1, calls = cs2, reply = server_error\<rparr>
               else \<lparr>store_after = D1\<lparr>urls := urls D @ [newUrl]\<rparr>, calls = cs2,
                     reply = mapping_json newUrl\<rparr>)"
  using assms
  by (simp add: create_stored_def getNextSequence_def save_def counter_value_def ids_def Let_def)

lemma create_store_cases:
  "store_after (create E D b) = D
   \<or> store_after (create E D b) = D\<lparr>counters := (counters D)(''url_count'' \<mapsto> inc_seq (counter_value D))\<rparr>
   \<or> (\<exists>u. candidate b = Some u \<and> u \<notin> original_url ` set (urls D) \<and> inc_seq (counter_value D) \<notin> ids D
         \<and> store_after (create E D b) =
             D\<lparr>counters := (counters D)(''url_count'' \<mapsto> inc_seq (counter_value D)),
               urls := urls D @ [\<lparr>original_url = u, short_url = inc_seq (counter_value D)\<rparr>]\<rparr>)"
proof (cases "candidate b")
  case None
  then show ?thesis by (simp add: create_def)
next
  case (Some u)
  show ?thesis
  proof (cases "valid_url E u")
    case False
    with Some show ?thesis
      by (auto simp: create_def valid_url_def split: option.splits)
  next
    case True
    from create_valid [OF Some True, of D] obtain h
      where c: "create E D b = create_stored E D [DnsLookup h] u" ..
    show ?thesis
    proof (cases "fails E (UrlFindOneByOriginal u) \<or> fails E (CounterFindOneAndUpdate ''url_count'')")
      case True
      then show ?thesis
        by (auto simp: c create_stored_def getNextSequence_def split: option.splits)
    next
      case False
      show ?thesis
      proof (cases "findOneByOriginal D u")
        case None
        with False Some show ?thesis
          by (auto simp: c create_stored_new Let_def findOneByOriginal_None)
      next
        case (Some d)
        with False show ?thesis by (simp add: c create_stored_existing)
      qed
    qed
  qed
qed

lemma create_reply_stored:
  assumes "reply (create E D b) = mapping_json d"
  shows "findOneByOriginal (store_after (create E D b)) (original_url d) = Some d"
proof (cases "candidate b")
  case None
  with assms show ?thesis by (simp add: create_def)
next
  case (Some u)
  show ?thesis
  proof (cases "valid_url E u")
    case False
    from create_invalid [OF Some False, of D] assms show ?thesis by simp
  next
    case True
    from create_valid [OF Some True, of D] obtain h
      where c: "create E D b = create_stored E D [DnsLookup h] u" ..
    show ?thesis
    proof (cases "fails E (UrlFindOneByOriginal u)")
      case True
      with assms show ?thesis
        by (simp add: c create_stored_def)
    next
      case lookup: False
      show ?thesis
      proof (cases "findOneByOriginal D u")
        case (Some d')
        with lookup assms findOneByOriginal_Some [OF Some] show ?thesis
          by (auto simp: c create_stored_existing)
      next
        case None
        show ?thesis
        proof (cases "fails E (CounterFindOneAndUpdate ''url_count'')")
          case True
          with lookup None assms show ?thesis
            by (simp add: c create_stored_def getNextSequence_def)
        next
          case False
          from None have "find (\<lambda>x. original_url x = u) (urls D) = None"
            by (simp add: findOneByOriginal_def)
          with lookup False None assms show ?thesis
            by (auto simp: c create_stored_new Let_def findOneByOriginal_def find_append
                  split: if_splits)
        qed
      qed
    qed
  qed
qed

lemma resolve_found:
  assumes "Number param = Num v" and "\<not> fails E (UrlFindOneByShort (Num v))"
    and "findOneByShort D (Num v) = Some entry"
  shows "reply (resolve E D param) = Redirect 302 (original_url entry)"
  using assms by (simp add: resolve_def Let_def)

subsection \<open>Invariants of sequences of requests\<close>

lemma store_inv_fresh: "store_inv fresh"
  by (simp add: store_inv_def unique_ids_def ids_allocated_def counter_value_def fresh_def)

lemma handle_store_inv:
  assumes "store_inv D"
  shows "store_inv (store_after (handle D r))"
proof (cases r)
  case (Create E b)
  from assms have c: "0 \<le> counter_value D" "counter_value D \<le> 2 ^ 53"
    by (simp_all add: store_inv_def)
  note n = inc_seq_bounds(1-3) [OF c]
  from create_store_cases [of E D b] assms n show ?thesis
    by (fastforce simp: Create store_inv_def unique_ids_def ids_allocated_def ids_def)
next
  case (Resolve E p)
  with assms show ?thesis by (simp add: resolve_def Let_def split: option.splits)
qed

lemma final_store_inv: "store_inv D \<Longrightarrow> store_inv (final_store D rs)"
  by (induction rs arbitrary: D) (simp_all add: handle_store_inv)

lemma handle_gap:
  assumes "n < 2 ^ 53" and "0 \<le> counter_value D" and "n \<le> counter_value D"
    and "counter_value D \<le> 2 ^ 53" and "n \<notin> ids D"
  shows "0 \<le> counter_value (store_after (handle D r))
         \<and> n \<le> counter_value (store_after (handle D r))
         \<and> counter_value (store_after (handle D r)) \<le> 2 ^ 53
         \<and> n \<notin> ids (store_after (handle D r))"
proof (cases r)
  case (Create E b)
  note c = assms(2,4)
  from inc_seq_bounds(4) [OF c assms(1,3)] have above: "n < inc_seq (counter_value D)" .
  from create_store_cases [of E D b] assms above inc_seq_bounds(1-3) [OF c] show ?thesis
    by (auto simp: Create)
next
  case (Resolve E p)
  with assms show ?thesis by (simp add: resolve_def Let_def split: option.splits)
qed

lemma final_store_gap:
  "\<lbrakk>n < 2 ^ 53; 0 \<le> counter_value D; n \<le> counter_value D; counter_value D \<le> 2 ^ 53;
    n \<notin> ids D\<rbrakk>
   \<Longrightarrow> n \<notin> ids (final_store D rs)"
proof (induction rs arbitrary: D)
  case Nil
  then show ?case by simp
next
  case (Cons r rs)
  from handle_gap [OF Cons.prems, of r] Cons.prems(1)
  have "n \<notin> ids (final_store (store_after (handle D r)) rs)"
    by (intro Cons.IH) simp_all
  then show ?case by simp
qed

lemma handle_distinct_urls:
  "distinct (map original_url (urls D)) \<Longrightarrow> distinct (map original_url (urls (store_after (handle D r))))"
proof (cases r)
  case (Create E b)
  assume "distinct (map original_url (urls D))"
  with create_store_cases [of E D b] show ?thesis
    by (auto simp: Create)
next
  case (Resolve E p)
  assume "distinct (map original_url (urls D))"
  with Resolve show ?thesis by (simp add: resolve_def Let_def split: option.splits)
qed

lemma final_store_distinct_urls:
  "distinct (map original_url (urls D)) \<Longrightarrow> distinct (map original_url (urls (final_store D rs)))"
  by (induction rs arbitrary: D) (simp_all add: handle_distinct_urls)

lemma replies_creates:
  assumes "store_up E"
  shows "\<lbrakk>\<forall>u\<in>set us. valid_url E u; distinct us; map candidate bs = map Some us;
          \<forall>u\<in>set us. findOneByOriginal D u = None; \<forall>k\<in>ids D. k \<le> counter_value D;
          0 \<le> counter_value D; counter_value D + int (length us) \<le> 2 ^ 53\<rbrakk>
         \<Longrightarrow> replies D (map (Create E) bs)
             = map (\<lambda>(i, u). mapping_json \<lparr>original_url = u, short_url = i\<rparr>)
                 (zip [counter_value D + 1..counter_value D + int (length us)] us)"
proof (induction us arbitrary: bs D)
  case Nil
  then show ?case by simp
next
  case (Cons u us)
  from Cons.prems(3) obtain b bs' where bs: "bs = b # bs'" and b: "candidate b = Some u"
    and bs': "map candidate bs' = map Some us"
    by (cases bs) auto
  note up = store_upD [OF assms]
  let ?n = "counter_value D + 1"
  let ?d = "\<lparr>original_url = u, short_url = ?n\<rparr>"
  let ?D2 = "D\<lparr>counters := (counters D)(''url_count'' \<mapsto> ?n), urls := urls D @ [?d]\<rparr>"
  from Cons.prems(7) have "counter_value D < 2 ^ 53" by simp
  with Cons.prems(6) have inc: "inc_seq (counter_value D) = ?n"
    by (rule inc_seq_small)
  from Cons.prems(1) have v: "valid_url E u" by simp
  from Cons.prems(4) have none: "findOneByOriginal D u = None" by simp
  from Cons.prems(5) have new: "?n \<notin> ids D" by auto
  from create_valid [OF b v, of D] obtain h
    where c: "create E D b = create_stored E D [DnsLookup h] u" ..
  have out: "create E D b =
      \<lparr>store_after = ?D2,
       calls = [DnsLookup h] @ [UrlFindOneByOriginal u, CounterFindOneAndUpdate ''url_count'', UrlSave ?d],
       reply = mapping_json ?d\<rparr>"
    using new up(3) by (simp add: c create_stored_new [OF up(1) none up(2)] Let_def inc)
  have absent: "\<forall>u'\<in>set us. findOneByOriginal ?D2 u' = None"
    using Cons.prems(2,4) by (auto simp: findOneByOriginal_None)
  have below: "\<forall>k\<in>ids ?D2. k \<le> counter_value ?D2"
    using Cons.prems(5) by auto
  have bound: "0 \<le> counter_value ?D2" "counter_value ?D2 + int (length us) \<le> 2 ^ 53"
    using Cons.prems(6,7) by simp_all
  from Cons.prems(1,2) have rest: "\<forall>u\<in>set us. valid_url E u" "distinct us" by simp_all
  have ih: "replies ?D2 (map (Create E) bs')
      = map (\<lambda>(i, u). mapping_json \<lparr>original_url = u, short_url = i\<rparr>)
          (zip [?n + 1..?n + int (length us)] us)"
    using Cons.IH [OF rest bs' absent below bound] by simp
  have "counter_value D + int (length (u # us)) = ?n + int (length us)"
    by simp
  then have "[?n..counter_value D + int (length (u # us))] = [?n..?n + int (length us)]"
    by (simp only:)
  also have "\<dots> = ?n # [?n + 1..?n + int (length us)]"
    by (rule upto_rec1) simp
  finally have range:
    "[?n..counter_value D + int (length (u # us))] = ?n # [?n + 1..?n + int (length us)]" .
  show ?case
    by (simp only: range) (simp add: bs out ih)
qed

subsection \<open>Create, then resolve, on a store the service wrote\<close>

lemma create_then_resolve_on:
  assumes "candidate b = Some u" and "valid_url E u" and "store_up E"
    and "\<forall>v. \<not> fails E' (UrlFindOneByShort v)"
    and "unique_ids D" and "ids_allocated D"
    and "0 \<le> counter_value D" and "counter_value D < 2 ^ 53"
  shows "\<exists>n. reply (create E D b)
                = Json 200 [(''original_url'', JString u), (''short_url'', JNumber n)]
             \<and> reply (resolve E' (store_after (create E D b)) (decimal n)) = Redirect 302 u"
proof -
  from create_valid [OF assms(1,2), of D] obtain h
    where c: "create E D b = create_stored E D [DnsLookup h] u" ..
  note up = store_upD [OF assms(3)]
  show ?thesis
  proof (cases "findOneByOriginal D u")
    case (Some d)
    from findOneByOriginal_Some [OF Some] have d: "d \<in> set (urls D)" "original_url d = u"
      by simp_all
    from d(1) assms(6,8) have range: "0 \<le> short_url d" "short_url d \<le> 2 ^ 53"
      by (auto simp: ids_allocated_def)
    have out: "create E D b =
        \<lparr>store_after = D, calls = [DnsLookup h] @ [UrlFindOneByOriginal u], reply = mapping_json d\<rparr>"
      by (simp only: c create_stored_existing [OF up(1) Some])
    have "reply (resolve E' D (decimal (short_url d))) = Redirect 302 (original_url d)"
      by (rule resolve_found [OF Number_decimal [OF range] _ find_id_unique [OF assms(5) d(1)]])
         (simp add: assms(4))
    then show ?thesis
      by (simp add: out mapping_json_def d(2))
  next
    case None
    let ?n = "counter_value D + 1"
    let ?d = "\<lparr>original_url = u, short_url = ?n\<rparr>"
    let ?D2 = "D\<lparr>counters := (counters D)(''url_count'' \<mapsto> ?n), urls := urls D @ [?d]\<rparr>"
    from assms(6) have new: "?n \<notin> ids D"
      by (auto simp: ids_allocated_def ids_def)
    have out: "create E D b =
        \<lparr>store_after = ?D2,
         calls = [DnsLookup h] @ [UrlFindOneByOriginal u, CounterFindOneAndUpdate ''url_count'', UrlSave ?d],
         reply = mapping_json ?d\<rparr>"
      using new up(3)
      by (simp add: c create_stored_new [OF up(1) None up(2)] Let_def
            inc_seq_small [OF assms(7,8)])
    from assms(7,8) have range: "0 \<le> ?n" "?n \<le> 2 ^ 53"
      by simp_all
    from new have "find (\<lambda>x. short_url x = ?n) (urls D) = None"
      by (force simp: find_None_iff ids_def)
    then have found: "findOneByShort ?D2 (Num (of_int ?n)) = Some ?d"
      unfolding findOneByShort_int by (simp add: find_append)
    have "reply (resolve E' ?D2 (decimal ?n)) = Redirect 302 (original_url ?d)"
      by (rule resolve_found [OF Number_decimal [OF range] _ found]) (simp add: assms(4))
    then show ?thesis
      by (simp add: out mapping_json_def)
  qed
qed

section \<open>The properties\<close>

text \<open>
  C1.  The store is any store the service has reached from the fresh one by handling
  requests one after another, with the counter still below \<open>2 ^ 53\<close>; a valid
  http/https URL whose hostname resolves is submitted and the store can be reached.
  Then create answers with the mapping of that URL, and resolve, asked for the decimal
  numeral of the id in that answer, redirects with status 302 to the URL submitted.
\<close>

theorem create_then_resolve_redirects:
  assumes "candidate b = Some u" and "valid_url E u" and "store_up E"
    and "\<forall>v. \<not> fails E' (UrlFindOneByShort v)"
    and "counter_value (final_store fresh rs) < 2 ^ 53"
  shows "\<exists>n. reply (create E (final_store fresh rs) b)
                = Json 200 [(''original_url'', JString u), (''short_url'', JNumber n)]
             \<and> reply (resolve E' (store_after (create E (final_store fresh rs) b)) (decimal n))
                = Redirect 302 u"
proof -
  have "store_inv (final_store fresh rs)"
    by (rule final_store_inv) (rule store_inv_fresh)
  then have "unique_ids (final_store fresh rs)" "ids_allocated (final_store fresh rs)"
    "0 \<le> counter_value (final_store fresh rs)"
    by (simp_all add: store_inv_def)
  from create_then_resolve_on [OF assms(1-4) this assms(5)] show ?thesis .
qed

theorem create_then_resolve_redirects_witness:
  "final_store fresh [Create example_env [''url'' \<mapsto> ''https://example.org/a'']]
     = \<lparr>urls = [\<lparr>original_url = ''https://example.org/a'', short_url = 1\<rparr>],
        counters = [''url_count'' \<mapsto> 1]\<rparr>
   \<and> reply (create example_env
              (final_store fresh [Create example_env [''url'' \<mapsto> ''https://example.org/a'']])
              [''url'' \<mapsto> ''http://example.com''])
       = Json 200 [(''original_url'', JString ''http://example.com''), (''short_url'', JNumber 2)]
   \<and> reply (resolve example_env
              (store_after (create example_env
                 (final_store fresh [Create example_env [''url'' \<mapsto> ''https://example.org/a'']])
                 [''url'' \<mapsto> ''http://example.com'']))
              ''2'')
       = Redirect 302 ''http://example.com''"
proof -
  let ?rs = "[Create example_env [''url'' \<mapsto> ''https://example.org/a'']]"
  let ?b = "[''url'' \<mapsto> ''http://example.com'']"
  let ?D = "\<lparr>urls = [\<lparr>original_url = ''https://example.org/a'', short_url = 1\<rparr>],
             counters = [''url_count'' \<mapsto> 1]\<rparr>"
  have before: "final_store fresh ?rs = ?D"
    by (simp add: create_def candidate_def js_or_def isValidHttpUrl_def getHostname_def
          example_env_def create_stored_def findOneByOriginal_def getNextSequence_def
          inc_seq_small save_def fresh_def Let_def)
  have first: "reply (create example_env ?D ?b)
      = Json 200 [(''original_url'', JString ''http://example.com''), (''short_url'', JNumber 2)]"
    by (simp add: create_def candidate_def js_or_def isValidHttpUrl_def getHostname_def
          example_env_def create_stored_def findOneByOriginal_def getNextSequence_def
          inc_seq_small save_def mapping_json_def Let_def)
  have "candidate ?b = Some ''http://example.com''"
    by (simp add: candidate_def js_or_def)
  moreover have "valid_url example_env ''http://example.com''"
    by (simp add: valid_url_def isValidHttpUrl_def getHostname_def example_env_def)
  moreover have "store_up example_env"
    by (simp add: store_up_def example_env_def split: outside_call.split)
  moreover have "\<forall>v. \<not> fails example_env (UrlFindOneByShort v)"
    by (simp add: example_env_def)
  moreover have "counter_value (final_store fresh ?rs) < 2 ^ 53"
    by (simp only: before) (simp add: counter_value_def)
  ultimately obtain n where
    "reply (create example_env (final_store fresh ?rs) ?b)
       = Json 200 [(''original_url'', JString ''http://example.com''), (''short_url'', JNumber n)]"
    and "reply (resolve example_env
           (store_after (create example_env (final_store fresh ?rs) ?b)) (decimal n))
       = Redirect 302 ''http://example.com''"
    using create_then_resolve_redirects
      [of ?b "''http://example.com''" example_env example_env ?rs]
    by blast
  then have answered: "reply (create example_env ?D ?b)
       = Json 200 [(''original_url'', JString ''http://example.com''), (''short_url'', JNumber n)]"
    and resolved: "reply (resolve example_env (store_after (create example_env ?D ?b)) (decimal n))
       = Redirect 302 ''http://example.com''"
    by (simp_all only: before)
  from answered first have n: "n = 2" by simp
  have "decimal 2 = ''2''"
    by (simp add: decimal_def decimalDigits.simps [of 2] char_of_eq_iff)
  with resolved have second: "reply (resolve example_env (store_after (create example_env ?D ?b)) ''2'')
       = Redirect 302 ''http://example.com''"
    by (simp only: n)
  show ?thesis
    by (simp only: before) (simp add: first second)
qed

text \<open>
  C2.  The store holds no mapping and no counter; \<open>N\<close> different valid URLs are
  submitted one after another, \<open>N\<close> at most \<open>2 ^ 53\<close>, and the store can be reached.
  Then the answers carry the ids 1, 2, ..., \<open>N\<close> in the order of submission.  Each call
  of the allocator returns the value it leaves in the counter, which, for a counter
  from 0 up to \<open>2 ^ 53 - 1\<close>, is one more than the value before, 0 standing for a
  counter that was not there.
\<close>

theorem sequential_creates_number_from_one:
  assumes "urls D = []" and "counters D ''url_count'' = None" and "distinct us"
    and "\<forall>u\<in>set us. valid_url E u" and "store_up E" and "map candidate bs = map Some us"
    and "int (length us) \<le> 2 ^ 53"
  shows "replies D (map (Create E) bs)
           = map (\<lambda>(i, u). Json 200 [(''original_url'', JString u), (''short_url'', JNumber i)])
               (zip [1..int (length us)] us)
         \<and> (\<forall>D' name old.
               old = (case counters D' name of None \<Rightarrow> 0 | Some v \<Rightarrow> v) \<and> 0 \<le> old \<and> old < 2 ^ 53
               \<longrightarrow> (\<exists>D1. getNextSequence E D' name = Inr (D1, old + 1)
                         \<and> counters D1 name = Some (old + 1)))"
proof -
  from assms(2) have c0: "counter_value D = 0" by (simp add: counter_value_def)
  from assms(1) have "\<forall>u\<in>set us. findOneByOriginal D u = None" "\<forall>k\<in>ids D. k \<le> counter_value D"
    by (simp_all add: findOneByOriginal_def ids_def)
  moreover from assms(7) have "0 \<le> counter_value D" "counter_value D + int (length us) \<le> 2 ^ 53"
    by (simp_all add: c0)
  ultimately have "replies D (map (Create E) bs)
           = map (\<lambda>(i, u). Json 200 [(''original_url'', JString u), (''short_url'', JNumber i)])
               (zip [1..int (length us)] us)"
    using replies_creates [OF assms(5,4,3,6), of D] by (simp add: c0 mapping_json_def)
  moreover have "\<exists>D1. getNextSequence E D' name = Inr (D1, old + 1)
                     \<and> counters D1 name = Some (old + 1)"
    if "old = (case counters D' name of None \<Rightarrow> 0 | Some v \<Rightarrow> v)" and "0 \<le> old" and "old < 2 ^ 53"
    for D' name old
  proof -
    from that(2,3) have "inc_seq old = old + 1" by (rule inc_seq_small)
    with that(1) store_upD(2) [OF assms(5), of name] show ?thesis
      by (simp add: getNextSequence_def Let_def)
  qed
  ultimately show ?thesis by blast
qed

theorem sequential_creates_number_from_one_witness:
  "replies fresh
     [Create example_env [''url'' \<mapsto> ''http://example.com''],
      Create example_env [''original_url'' \<mapsto> ''https://example.org/a'']]
   = [Json 200 [(''original_url'', JString ''http://example.com''), (''short_url'', JNumber 1)],
      Json 200 [(''original_url'', JString ''https://example.org/a''), (''short_url'', JNumber 2)]]"
proof -
  let ?us = "[''http://example.com'', ''https://example.org/a'']"
  let ?bs = "[[''url'' \<mapsto> ''http://example.com''], [''original_url'' \<mapsto> ''https://example.org/a'']]"
  have "urls fresh = []" "counters fresh ''url_count'' = None"
    by (simp_all add: fresh_def)
  moreover have "distinct ?us"
    by simp
  moreover have "\<forall>u\<in>set ?us. valid_url example_env u"
    by (simp add: valid_url_def isValidHttpUrl_def getHostname_def example_env_def)
  moreover have "store_up example_env"
    by (simp add: store_up_def example_env_def split: outside_call.split)
  moreover have "map candidate ?bs = map Some ?us"
    by (simp add: candidate_def js_or_def)
  moreover have "int (length ?us) \<le> 2 ^ 53"
    by simp
  ultimately have "replies fresh (map (Create example_env) ?bs)
      = map (\<lambda>(i, u). Json 200 [(''original_url'', JString u), (''short_url'', JNumber i)])
          (zip [1..int (length ?us)] ?us)"
    using sequential_creates_number_from_one [of fresh ?us example_env ?bs]
    by blast
  moreover have "[1..int (length ?us)] = [1, 2]"
    by (simp add: upto_rec1)
  ultimately show ?thesis
    by simp
qed

text \<open>
  C3.  The URL submitted is in the store already.  Then create leaves the store as it
  was and does not call the allocator, so the counter keeps its value; and when the
  URL is valid, its hostname resolves and the lookup reaches the store, the answer is
  the stored mapping, with the id it had.
\<close>

theorem create_of_stored_url_is_idempotent:
  assumes "findOneByOriginal D u = Some d" and "candidate b = Some u"
  shows "store_after (create E D b) = D
         \<and> CounterFindOneAndUpdate ''url_count'' \<notin> set (calls (create E D b))
         \<and> counter_value (store_after (create E D b)) = counter_value D
         \<and> (valid_url E u \<and> \<not> fails E (UrlFindOneByOriginal u) \<longrightarrow>
              reply (create E D b)
                = Json 200 [(''original_url'', JString u), (''short_url'', JNumber (short_url d))])"
proof (cases "valid_url E u")
  case False
  from create_invalid [OF assms(2) False, of D] show ?thesis
    using False by (simp split: option.splits)
next
  case True
  from create_valid [OF assms(2) True, of D] obtain h
    where c: "create E D b = create_stored E D [DnsLookup h] u" ..
  from findOneByOriginal_Some [OF assms(1)] have u: "original_url d = u" by simp
  show ?thesis
  proof (cases "fails E (UrlFindOneByOriginal u)")
    case True
    then show ?thesis by (simp add: c create_stored_def)
  next
    case False
    then show ?thesis
      by (simp add: c create_stored_existing [OF False assms(1)] mapping_json_def u)
  qed
qed

theorem create_of_stored_url_is_idempotent_witness:
  "store_after (create example_env fresh [''url'' \<mapsto> ''http://example.com''])
     = \<lparr>urls = [\<lparr>original_url = ''http://example.com'', short_url = 1\<rparr>],
        counters = [''url_count'' \<mapsto> 1]\<rparr>
   \<and> reply (create example_env
              \<lparr>urls = [\<lparr>original_url = ''http://example.com'', short_url = 1\<rparr>],
                counters = [''url_count'' \<mapsto> 1]\<rparr>
              [''url'' \<mapsto> ''http://example.com''])
       = Json 200 [(''original_url'', JString ''http://example.com''), (''short_url'', JNumber 1)]
   \<and> store_after (create example_env
              \<lparr>urls = [\<lparr>original_url = ''http://example.com'', short_url = 1\<rparr>],
                counters = [''url_count'' \<mapsto> 1]\<rparr>
              [''url'' \<mapsto> ''http://example.com''])
       = \<lparr>urls = [\<lparr>original_url = ''http://example.com'', short_url = 1\<rparr>],
          counters = [''url_count'' \<mapsto> 1]\<rparr>"
proof -
  let ?b = "[''url'' \<mapsto> ''http://example.com'']"
  let ?d = "\<lparr>original_url = ''http://example.com'', short_url = 1\<rparr>"
  let ?D1 = "\<lparr>urls = [?d], counters = [''url_count'' \<mapsto> 1]\<rparr>"
  have first: "store_after (create example_env fresh ?b) = ?D1"
    by (simp add: create_def candidate_def js_or_def isValidHttpUrl_def getHostname_def
          example_env_def create_stored_def findOneByOriginal_def getNextSequence_def inc_seq_small save_def
          fresh_def Let_def)
  have "findOneByOriginal ?D1 ''http://example.com'' = Some ?d"
    by (simp add: findOneByOriginal_def)
  moreover have "candidate ?b = Some ''http://example.com''"
    by (simp add: candidate_def js_or_def)
  moreover have "valid_url example_env ''http://example.com''"
    by (simp add: valid_url_def isValidHttpUrl_def getHostname_def example_env_def)
  moreover have "\<not> fails example_env (UrlFindOneByOriginal ''http://example.com'')"
    by (simp add: example_env_def)
  ultimately have "reply (create example_env ?D1 ?b)
      = Json 200 [(''original_url'', JString ''http://example.com''),
                  (''short_url'', JNumber (short_url ?d))]
    \<and> store_after (create example_env ?D1 ?b) = ?D1"
    using create_of_stored_url_is_idempotent [of ?D1 "''http://example.com''" ?d ?b example_env]
    by blast
  with first show ?thesis
    by simp
qed

text \<open>
  C4.  The candidate is falsy (no field, or the empty string), or the parser throws on
  it, or its scheme is neither http nor https, or the lookup of its hostname gives an
  error.  Then create answers with status 200 and the payload
  \<open>{"error": "invalid url"}\<close>, the same for each cause; the store is untouched and no
  store call is made.
\<close>

theorem invalid_input_answered_invalid_url:
  assumes "\<not> truthy (candidate b)
         \<or> (\<exists>u. candidate b = Some u
               \<and> (parseURL E u = None
                  \<or> (\<exists>p. parseURL E u = Some p \<and> protocol p \<noteq> ''http:'' \<and> protocol p \<noteq> ''https:'')
                  \<or> (\<exists>p. parseURL E u = Some p \<and> fails E (DnsLookup (hostname p)))))"
  shows "reply (create E D b) = Json 200 [(''error'', JString ''invalid url'')]
         \<and> store_after (create E D b) = D
         \<and> set (calls (create E D b)) \<subseteq> range DnsLookup"
proof (cases "candidate b")
  case None
  then show ?thesis by (simp add: create_def invalid_url_def)
next
  case (Some u)
  with assms have "\<not> valid_url E u"
    by (auto simp: valid_url_def isValidHttpUrl_def getHostname_def split: option.splits)
  from create_invalid [OF Some this, of D] show ?thesis
    by (auto simp: invalid_url_def split: option.splits if_splits)
qed

theorem invalid_input_answered_invalid_url_witness:
  "reply (create example_env fresh [''url'' \<mapsto> ''not a url''])
     = Json 200 [(''error'', JString ''invalid url'')]
   \<and> reply (create example_env fresh [''url'' \<mapsto> ''ftp://example.com''])
     = Json 200 [(''error'', JString ''invalid url'')]
   \<and> reply (create example_env fresh [''url'' \<mapsto> ''''])
     = Json 200 [(''error'', JString ''invalid url'')]
   \<and> reply (create example_env fresh [''url'' \<mapsto> ''http://no-such-host.invalid''])
     = Json 200 [(''error'', JString ''invalid url'')]"
proof -
  have unparsable: "reply (create example_env fresh [''url'' \<mapsto> ''not a url''])
      = Json 200 [(''error'', JString ''invalid url'')]"
    using invalid_input_answered_invalid_url [of "[''url'' \<mapsto> ''not a url'']" example_env fresh]
    by (simp add: candidate_def js_or_def example_env_def)
  have scheme: "reply (create example_env fresh [''url'' \<mapsto> ''ftp://example.com''])
      = Json 200 [(''error'', JString ''invalid url'')]"
    using invalid_input_answered_invalid_url
      [of "[''url'' \<mapsto> ''ftp://example.com'']" example_env fresh]
    by (simp add: candidate_def js_or_def example_env_def)
  have empty: "reply (create example_env fresh [''url'' \<mapsto> ''''])
      = Json 200 [(''error'', JString ''invalid url'')]"
    using invalid_input_answered_invalid_url [of "[''url'' \<mapsto> '''']" example_env fresh]
    by (simp add: candidate_def js_or_def)
  have unresolved: "reply (create example_env fresh [''url'' \<mapsto> ''http://no-such-host.invalid''])
      = Json 200 [(''error'', JString ''invalid url'')]"
    using invalid_input_answered_invalid_url
      [of "[''url'' \<mapsto> ''http://no-such-host.invalid'']" example_env fresh]
    by (simp add: candidate_def js_or_def example_env_def)
  from unparsable scheme empty unresolved show ?thesis by simp
qed

text \<open>
  C5, as the specification states it: the first of \<open>url\<close>, \<open>original_url\<close>, \<open>input\<close>
  that is present wins, whatever its value.  The handler chains the fields with \<open>||\<close>,
  which passes over a field that is present with the empty string: for the body
  \<open>{url: "", original_url: "http://example.com"}\<close> the candidate is the second field,
  not the first.
\<close>

theorem candidate_first_present_counterexample:
  "candidate [''url'' \<mapsto> '''', ''original_url'' \<mapsto> ''http://example.com'']
     = Some ''http://example.com''
   \<and> first_present [''url'' \<mapsto> '''', ''original_url'' \<mapsto> ''http://example.com'']
     = Some ''''
   \<and> candidate [''url'' \<mapsto> '''', ''original_url'' \<mapsto> ''http://example.com'']
     \<noteq> first_present [''url'' \<mapsto> '''', ''original_url'' \<mapsto> ''http://example.com'']"
  by (simp add: candidate_def js_or_def first_present_def)

text \<open>
  C5, amended: the candidate is the value of the first of \<open>url\<close>, \<open>original_url\<close>,
  \<open>input\<close> whose value is truthy, that is, present and not the empty string; when none
  is, it is the value of \<open>input\<close>.  So the first field present wins whenever its value
  is not empty, and a body with no truthy field is answered as an invalid URL.
\<close>

theorem candidate_first_truthy:
  "candidate b =
     (case find (\<lambda>k. truthy (b k)) [''url'', ''original_url'', ''input''] of
        Some k \<Rightarrow> b k
      | None \<Rightarrow> b ''input'')
   \<and> (truthy (first_present b) \<longrightarrow> candidate b = first_present b)
   \<and> (\<not> truthy (candidate b) \<longrightarrow> reply (create E D b) = invalid_url)"
proof -
  have "\<not> truthy (candidate b) \<longrightarrow> reply (create E D b) = invalid_url"
    by (cases "candidate b") (simp_all add: create_def)
  then show ?thesis
    by (auto simp: candidate_def js_or_def first_present_def split: option.splits)
qed

theorem candidate_first_truthy_witness:
  "candidate [''url'' \<mapsto> '''', ''original_url'' \<mapsto> ''http://example.com'']
     = Some ''http://example.com''
   \<and> candidate [''original_url'' \<mapsto> ''http://example.com'', ''input'' \<mapsto> ''x'']
     = first_present [''original_url'' \<mapsto> ''http://example.com'', ''input'' \<mapsto> ''x'']
   \<and> reply (create example_env fresh [''url'' \<mapsto> '''']) = invalid_url"
proof -
  have skipped: "candidate [''url'' \<mapsto> '''', ''original_url'' \<mapsto> ''http://example.com'']
      = Some ''http://example.com''"
    using candidate_first_truthy
      [of "[''url'' \<mapsto> '''', ''original_url'' \<mapsto> ''http://example.com'']" example_env fresh]
    by simp
  have agree: "candidate [''original_url'' \<mapsto> ''http://example.com'', ''input'' \<mapsto> ''x'']
      = first_present [''original_url'' \<mapsto> ''http://example.com'', ''input'' \<mapsto> ''x'']"
    using candidate_first_truthy
      [of "[''original_url'' \<mapsto> ''http://example.com'', ''input'' \<mapsto> ''x'']" example_env fresh]
    by (simp add: first_present_def)
  have rejected: "reply (create example_env fresh [''url'' \<mapsto> '''']) = invalid_url"
    using candidate_first_truthy [of "[''url'' \<mapsto> '''']" example_env fresh]
    by (simp add: candidate_def js_or_def)
  from skipped agree rejected show ?thesis by simp
qed

text \<open>
  C6.  The path parameter does not convert to a finite number.  Then resolve answers
  with status 200 and the payload \<open>{"error": "invalid url"}\<close> and makes no call to the
  store, whatever the store holds and whether or not it can be reached.
\<close>

theorem resolve_not_finite:
  assumes "\<not> Number_isFinite (Number param)"
  shows "resolve E D param
           = \<lparr>store_after = D, calls = [],
              reply = Json 200 [(''error'', JString ''invalid url'')]\<rparr>"
  using assms by (simp add: resolve_def invalid_url_def Let_def)

theorem resolve_not_finite_witness:
  "resolve example_env fresh ''abc''
     = \<lparr>store_after = fresh, calls = [], reply = Json 200 [(''error'', JString ''invalid url'')]\<rparr>
   \<and> resolve example_env fresh ''Infinity''
     = \<lparr>store_after = fresh, calls = [], reply = Json 200 [(''error'', JString ''invalid url'')]\<rparr>"
  using resolve_not_finite [of "''abc''" example_env fresh]
    resolve_not_finite [of "''Infinity''" example_env fresh]
  by (simp add: Number_abc Number_Infinity)

text \<open>
  C7.  The path parameter converts to a finite number, the lookup reaches the store and
  no mapping has that number as its id.  Then resolve answers with status 404 and the
  payload \<open>{"error": "No short URL found for given input"}\<close>.
\<close>

theorem resolve_absent:
  assumes "Number_isFinite (Number param)"
    and "\<not> fails E (UrlFindOneByShort (Number param))"
    and "findOneByShort D (Number param) = None"
  shows "reply (resolve E D param)
           = Json 404 [(''error'', JString ''No short URL found for given input'')]"
  using assms by (simp add: resolve_def not_found_def Let_def)

theorem resolve_absent_witness:
  "reply (resolve example_env
            \<lparr>urls = [\<lparr>original_url = ''http://example.com'', short_url = 1\<rparr>],
              counters = [''url_count'' \<mapsto> 1]\<rparr>
            ''999999'')
     = Json 404 [(''error'', JString ''No short URL found for given input'')]"
  using resolve_absent
    [of "''999999''" example_env
        "\<lparr>urls = [\<lparr>original_url = ''http://example.com'', short_url = 1\<rparr>],
          counters = [''url_count'' \<mapsto> 1]\<rparr>"]
  by (simp add: Number_999999 findOneByShort_def example_env_def)

text \<open>
  C8.  A valid URL that is not in the store is submitted, the lookup and the allocator
  succeed, and the insert is refused; the counter was not negative and the id handed
  out is below \<open>2 ^ 53\<close>.  Then create answers with status 500 and the payload
  \<open>{"error": "server error"}\<close>; the allocator was called and the counter keeps the
  value it handed out; no mapping was added.  If no mapping had that id, none will:
  whatever requests follow, the id stays out of the store.
\<close>

theorem failed_insert_leaves_gap:
  assumes "candidate b = Some u" and "valid_url E u"
    and "\<not> fails E (UrlFindOneByOriginal u)" and "findOneByOriginal D u = None"
    and "\<not> fails E (CounterFindOneAndUpdate ''url_count'')"
    and "save E (D\<lparr>counters := (counters D)(''url_count'' \<mapsto> counter_value D + 1)\<rparr>)
              \<lparr>original_url = u, short_url = counter_value D + 1\<rparr> = Inl err"
    and "0 \<le> counter_value D" and "counter_value D + 1 < 2 ^ 53"
  shows "reply (create E D b) = Json 500 [(''error'', JString ''server error'')]
         \<and> CounterFindOneAndUpdate ''url_count'' \<in> set (calls (create E D b))
         \<and> counter_value (store_after (create E D b)) = counter_value D + 1
         \<and> urls (store_after (create E D b)) = urls D
         \<and> (counter_value D + 1 \<notin> ids D \<longrightarrow>
              (\<forall>rs. counter_value D + 1 \<notin> ids (final_store (store_after (create E D b)) rs)))"
proof -
  let ?n = "counter_value D + 1"
  let ?D1 = "D\<lparr>counters := (counters D)(''url_count'' \<mapsto> ?n)\<rparr>"
  from assms(8) have "counter_value D < 2 ^ 53" by simp
  with assms(7) have inc: "inc_seq (counter_value D) = ?n"
    by (rule inc_seq_small)
  from create_valid [OF assms(1,2), of D] obtain h
    where c: "create E D b = create_stored E D [DnsLookup h] u" ..
  from assms(6) have f: "fails E (UrlSave \<lparr>original_url = u, short_url = ?n\<rparr>) \<or> ?n \<in> ids D"
    by (auto simp: save_def ids_def split: if_splits)
  have out: "create E D b =
      \<lparr>store_after = ?D1,
       calls = [DnsLookup h, UrlFindOneByOriginal u, CounterFindOneAndUpdate ''url_count'',
                UrlSave \<lparr>original_url = u, short_url = ?n\<rparr>],
       reply = server_error\<rparr>"
    using f by (auto simp: c create_stored_new [OF assms(3,4,5)] Let_def inc)
  have gap: "?n \<notin> ids (final_store ?D1 rs)" if "?n \<notin> ids D" for rs
  proof (rule final_store_gap [OF assms(8)])
    show "0 \<le> counter_value ?D1" using assms(7) by simp
    show "?n \<le> counter_value ?D1" by simp
    show "counter_value ?D1 \<le> 2 ^ 53" using assms(8) by simp
    show "?n \<notin> ids ?D1" using that by simp
  qed
  show ?thesis
    using gap by (simp add: out server_error_def)
qed

theorem failed_insert_leaves_gap_witness:
  "reply (create (example_env\<lparr>fails := (\<lambda>c. c = UrlSave \<lparr>original_url = ''http://example.com'', short_url = 1\<rparr>)\<rparr>)
            fresh [''url'' \<mapsto> ''http://example.com''])
     = Json 500 [(''error'', JString ''server error'')]
   \<and> store_after (create (example_env\<lparr>fails := (\<lambda>c. c = UrlSave \<lparr>original_url = ''http://example.com'', short_url = 1\<rparr>)\<rparr>)
            fresh [''url'' \<mapsto> ''http://example.com''])
     = \<lparr>urls = [], counters = [''url_count'' \<mapsto> 1]\<rparr>
   \<and> reply (create example_env \<lparr>urls = [], counters = [''url_count'' \<mapsto> 1]\<rparr>
            [''url'' \<mapsto> ''http://example.com''])
     = Json 200 [(''original_url'', JString ''http://example.com''), (''short_url'', JNumber 2)]"
proof -
  let ?d = "\<lparr>original_url = ''http://example.com'', short_url = 1\<rparr>"
  let ?E = "example_env\<lparr>fails := (\<lambda>c. c = UrlSave ?d)\<rparr>"
  let ?b = "[''url'' \<mapsto> ''http://example.com'']"
  have "candidate ?b = Some ''http://example.com''"
    by (simp add: candidate_def js_or_def)
  moreover have "valid_url ?E ''http://example.com''"
    by (simp add: valid_url_def isValidHttpUrl_def getHostname_def example_env_def)
  moreover have "\<not> fails ?E (UrlFindOneByOriginal ''http://example.com'')"
    "\<not> fails ?E (CounterFindOneAndUpdate ''url_count'')"
    by simp_all
  moreover have "findOneByOriginal fresh ''http://example.com'' = None"
    by (simp add: findOneByOriginal_def fresh_def)
  moreover have "save ?E (fresh\<lparr>counters := (counters fresh)(''url_count'' \<mapsto> counter_value fresh + 1)\<rparr>)
        \<lparr>original_url = ''http://example.com'', short_url = counter_value fresh + 1\<rparr> = Inl Unavailable"
    by (simp add: save_def counter_value_def fresh_def)
  moreover have "0 \<le> counter_value fresh" "counter_value fresh + 1 < 2 ^ 53"
    by (simp_all add: counter_value_def fresh_def)
  ultimately have "reply (create ?E fresh ?b) = Json 500 [(''error'', JString ''server error'')]"
    using failed_insert_leaves_gap [of ?b "''http://example.com''" ?E fresh Unavailable]
    by blast
  moreover have "store_after (create ?E fresh ?b) = \<lparr>urls = [], counters = [''url_count'' \<mapsto> 1]\<rparr>"
    by (simp add: create_def candidate_def js_or_def isValidHttpUrl_def getHostname_def
          example_env_def create_stored_def findOneByOriginal_def getNextSequence_def inc_seq_small save_def
          fresh_def Let_def)
  moreover have "reply (create example_env \<lparr>urls = [], counters = [''url_count'' \<mapsto> 1]\<rparr> ?b)
      = Json 200 [(''original_url'', JString ''http://example.com''), (''short_url'', JNumber 2)]"
    by (simp add: create_def candidate_def js_or_def isValidHttpUrl_def getHostname_def
          example_env_def create_stored_def findOneByOriginal_def getNextSequence_def inc_seq_small save_def
          mapping_json_def Let_def)
  ultimately show ?thesis
    by simp
qed

text \<open>
  C9.  The \<open>original_url\<close> values of the store are pairwise distinct.  Then they are
  after a create, whatever is submitted and whatever fails: create leaves the mappings
  as they were or appends one mapping, for a URL that its lookup did not find.  So they
  stay distinct through every sequence of requests handled one after another.
\<close>

theorem create_keeps_original_urls_distinct:
  assumes "distinct (map original_url (urls D))"
  shows "distinct (map original_url (urls (store_after (create E D b))))
         \<and> (urls (store_after (create E D b)) = urls D
             \<or> (\<exists>u n. candidate b = Some u \<and> findOneByOriginal D u = None
                    \<and> urls (store_after (create E D b))
                        = urls D @ [\<lparr>original_url = u, short_url = n\<rparr>]))
         \<and> (\<forall>rs. distinct (map original_url (urls (final_store D rs))))"
proof -
  from handle_distinct_urls [OF assms, of "Create E b"]
  have "distinct (map original_url (urls (store_after (create E D b))))" by simp
  moreover from create_store_cases [of E D b]
  have "urls (store_after (create E D b)) = urls D
        \<or> (\<exists>u n. candidate b = Some u \<and> findOneByOriginal D u = None
               \<and> urls (store_after (create E D b))
                   = urls D @ [\<lparr>original_url = u, short_url = n\<rparr>])"
    by (auto simp: findOneByOriginal_None)
  moreover have "\<forall>rs. distinct (map original_url (urls (final_store D rs)))"
    by (simp add: final_store_distinct_urls [OF assms])
  ultimately show ?thesis by blast
qed

theorem create_keeps_original_urls_distinct_witness:
  "distinct (map original_url
      (urls (store_after (create example_env
         \<lparr>urls = [\<lparr>original_url = ''http://example.com'', short_url = 1\<rparr>],
           counters = [''url_count'' \<mapsto> 1]\<rparr>
         [''url'' \<mapsto> ''http://example.com'']))))
   \<and> distinct (map original_url
      (urls (final_store fresh
         [Create example_env [''url'' \<mapsto> ''http://example.com''],
          Create example_env [''url'' \<mapsto> ''http://example.com'']])))"
proof -
  have "distinct (map original_url
      (urls \<lparr>urls = [\<lparr>original_url = ''http://example.com'', short_url = 1\<rparr>],
              counters = [''url_count'' \<mapsto> 1]\<rparr>))"
    by simp
  moreover have "distinct (map original_url (urls fresh))"
    by (simp add: fresh_def)
  ultimately show ?thesis
    using create_keeps_original_urls_distinct
      [of "\<lparr>urls = [\<lparr>original_url = ''http://example.com'', short_url = 1\<rparr>],
             counters = [''url_count'' \<mapsto> 1]\<rparr>"
          example_env "[''url'' \<mapsto> ''http://example.com'']"]
      create_keeps_original_urls_distinct [of fresh]
    by blast
qed

text \<open>
  C10.  The check of the path parameter lets through every string that \<open>Number\<close>
  converts to a finite value, integer or not: resolve then looks the value up, and
  answers 404 when no mapping has it and with the redirect when one has.  \<open>"3.5"\<close>
  converts to 3.5, which no id equals, and \<open>"1e3"\<close> to 1000.
\<close>

theorem resolve_looks_up_any_finite_number:
  assumes "Number param = Num v" and "\<not> fails E (UrlFindOneByShort (Num v))"
  shows "calls (resolve E D param) = [UrlFindOneByShort (Num v)]
         \<and> reply (resolve E D param)
             = (case findOneByShort D (Num v) of
                  None \<Rightarrow> Json 404 [(''error'', JString ''No short URL found for given input'')]
                | Some entry \<Rightarrow> Redirect 302 (original_url entry))
         \<and> Number ''3.5'' = Num (7 / 2) \<and> Number ''1e3'' = Num 1000
         \<and> findOneByShort D (Num (7 / 2)) = None"
proof -
  have "of_int k \<noteq> (7 / 2 :: rat)" for k :: int
  proof
    assume "of_int k = (7 / 2 :: rat)"
    then have "(of_int (2 * k) :: rat) = of_int 7" by simp
    then have "2 * k = 7" by (simp only: of_int_eq_iff)
    then show False by presburger
  qed
  then have "findOneByShort D (Num (7 / 2)) = None"
    by (simp add: findOneByShort_def find_None_iff)
  then show ?thesis
    using assms
    by (simp add: resolve_def not_found_def Let_def Number_3_5 Number_1e3 split: option.split)
qed

theorem resolve_looks_up_any_finite_number_witness:
  "reply (resolve example_env
            \<lparr>urls = [\<lparr>original_url = ''http://example.com'', short_url = 3\<rparr>],
              counters = [''url_count'' \<mapsto> 3]\<rparr>
            ''3.5'')
     = Json 404 [(''error'', JString ''No short URL found for given input'')]
   \<and> reply (resolve example_env
            \<lparr>urls = [\<lparr>original_url = ''http://example.com'', short_url = 1000\<rparr>],
              counters = [''url_count'' \<mapsto> 1000]\<rparr>
            ''1e3'')
     = Redirect 302 ''http://example.com''"
  using resolve_looks_up_any_finite_number
    [of "''3.5''" "7 / 2" example_env
        "\<lparr>urls = [\<lparr>original_url = ''http://example.com'', short_url = 3\<rparr>],
          counters = [''url_count'' \<mapsto> 3]\<rparr>"]
    resolve_looks_up_any_finite_number
    [of "''1e3''" 1000 example_env
        "\<lparr>urls = [\<lparr>original_url = ''http://example.com'', short_url = 1000\<rparr>],
          counters = [''url_count'' \<mapsto> 1000]\<rparr>"]
  by (simp add: Number_3_5 Number_1e3 findOneByShort_def example_env_def)

end
